theory Spec2Isabelle
  imports Main "HOL-Library.Word" "HOL-Library.Sublist"
begin

section \<open>Errors\<close>

text \<open>
  Every \<^verbatim>\<open>throw\<close> and failed \<^verbatim>\<open>assert\<close> of the TypeScript sources is a value of this
  type; a fallible operation returns \<open>error + 'a\<close> with \<open>Inl\<close> for the error.
\<close>

datatype error =
    CannotConvert nat nat
  | EnumVariantMismatch nat nat
  | NoSuchProperty
  | DecodeError
  | UnknownType
  | TypeError
  | AssertionFailed
  | UnableToConvert

section \<open>Storage keys (StorageKey.ts)\<close>

subsection \<open>Hashers\<close>

type_synonym u8a = "8 word list"

text \<open>The hasher kinds, the keys of \<^verbatim>\<open>HASHER_MAP\<close>, with their names as the source spells them.\<close>

datatype StorageHasher =
  Blake2_128 | Blake2_128Concat | Blake2_256 | Identity | Twox128 | Twox256 | Twox64Concat

fun hasherName :: "StorageHasher \<Rightarrow> string" where
  "hasherName Blake2_128 = ''Blake2_128''"
| "hasherName Blake2_128Concat = ''Blake2_128Concat''"
| "hasherName Blake2_256 = ''Blake2_256''"
| "hasherName Identity = ''Identity''"
| "hasherName Twox128 = ''Twox128''"
| "hasherName Twox256 = ''Twox256''"
| "hasherName Twox64Concat = ''Twox64Concat''"

text \<open>\<^verbatim>\<open>// hasher type -> [initialHashLength, canDecodeKey]\<close>\<close>

fun HASHER_MAP :: "StorageHasher \<Rightarrow> nat \<times> bool" where
  "HASHER_MAP Blake2_128 = (16, False)"
| "HASHER_MAP Blake2_128Concat = (16, True)"
| "HASHER_MAP Blake2_256 = (32, False)"
| "HASHER_MAP Identity = (0, True)"
| "HASHER_MAP Twox128 = (16, False)"
| "HASHER_MAP Twox256 = (32, False)"
| "HASHER_MAP Twox64Concat = (8, True)"

subsection \<open>Descriptors, codec values and the registry\<close>

text \<open>
  \<^verbatim>\<open>StorageEntryTypeLatest\<close> is \<^verbatim>\<open>Plain(type)\<close> or \<^verbatim>\<open>Map { hashers, key, value }\<close>; of the
  descriptor \<^verbatim>\<open>StorageEntryMetadataLatest\<close> the code reads the field \<^verbatim>\<open>type\<close> only.
\<close>

type_synonym SiLookupTypeId = nat

datatype StorageEntryTypeLatest =
    Plain SiLookupTypeId
  | Map "StorageHasher list" SiLookupTypeId SiLookupTypeId

record StorageEntryMetadataLatest =
  type :: StorageEntryTypeLatest

text \<open>
  Modelled from the spec: codec values, which are not part of the sources at hand. A codec
  value "knows its own encoded byte length"; \<^verbatim>\<open>Raw\<close> is the opaque byte sequence, any other
  decoded value carries its payload and the number of bytes it was decoded from.
\<close>

datatype 'v Codec = Raw u8a | Decoded 'v nat

fun encodedLength :: "'v Codec \<Rightarrow> nat" where
  "encodedLength (Raw b) = length b"
| "encodedLength (Decoded v n) = n"

text \<open>
  The registry operations the storage-key code calls are not part of the sources at hand
  and are parameters, each of them free to throw: \<^verbatim>\<open>createType(name, bytes)\<close> for the names
  other than \<^verbatim>\<open>'Raw'\<close>, \<^verbatim>\<open>createLookupType(id)\<close> (given \<open>None\<close> where the code hands it
  \<^verbatim>\<open>undefined\<close>), \<^verbatim>\<open>lookup.getSiType(id).def.asTuple\<close> and \<^verbatim>\<open>getSiName(lookup, id)\<close>.
\<close>

record 'v Registry =
  create :: "string \<Rightarrow> u8a \<Rightarrow> error + 'v Codec"
  createLookupType :: "SiLookupTypeId option \<Rightarrow> error + string"
  getSiTypeDefAsTuple :: "SiLookupTypeId \<Rightarrow> error + SiLookupTypeId list"
  getSiName :: "SiLookupTypeId \<Rightarrow> error + string"

text \<open>
  Modelled from the spec: \<^verbatim>\<open>registry.createType('Raw', bytes)\<close> wraps the bytes it is given,
  whatever their number.
\<close>

definition createType :: "'v Registry \<Rightarrow> string \<Rightarrow> u8a \<Rightarrow> error + 'v Codec" where
  "createType registry ty bytes =
     (if ty = ''Raw'' then Inr (Raw bytes) else create registry ty bytes)"

text \<open>
  \<^verbatim>\<open>Uint8Array.prototype.subarray(begin, end?)\<close> for indices that are not negative: both are
  clamped to the length, and the result is empty when \<open>end \<le> begin\<close>.
\<close>

definition subarray :: "u8a \<Rightarrow> nat \<Rightarrow> nat option \<Rightarrow> u8a" where
  "subarray v b e = (case e of None \<Rightarrow> drop b v | Some e' \<Rightarrow> drop b (take e' v))"

text \<open>Array indexing \<^verbatim>\<open>xs[i]\<close>: \<^verbatim>\<open>undefined\<close> beyond the end.\<close>

definition at :: "'a list \<Rightarrow> nat \<Rightarrow> 'a option" where
  "at xs i = (if i < length xs then Some (xs ! i) else None)"

definition unwrapStorageSi :: "StorageEntryTypeLatest \<Rightarrow> SiLookupTypeId" where
  "unwrapStorageSi ty = (case ty of Plain t \<Rightarrow> t | Map hs k v \<Rightarrow> v)"

definition unwrapStorageType ::
    "'v Registry \<Rightarrow> StorageEntryTypeLatest \<Rightarrow> bool \<Rightarrow> error + string" where
  "unwrapStorageType registry ty isOptional =
     (case getSiName registry (unwrapStorageSi ty) of
        Inl e \<Rightarrow> Inl e
      | Inr outputType \<Rightarrow>
          Inr (if isOptional then ''Option<'' @ outputType @ ''>'' else outputType))"

subsection \<open>Decoding the arguments\<close>

text \<open>
  The callback of the \<^verbatim>\<open>reduce\<close> in \<^verbatim>\<open>decodeHashers\<close>. It reads and writes the variable
  \<^verbatim>\<open>offset\<close> of the enclosing function and pushes to the accumulator \<^verbatim>\<open>result\<close>; here both
  are the state it is given and returns.
\<close>

definition decodeHasher ::
    "'v Registry \<Rightarrow> u8a \<Rightarrow> nat \<times> 'v Codec list \<Rightarrow> StorageHasher \<times> SiLookupTypeId option \<Rightarrow>
     error + nat \<times> 'v Codec list" where
  "decodeHasher registry v st ht =
     (case st of (offset, result) \<Rightarrow>
      case ht of (hasher, ty) \<Rightarrow>
      case HASHER_MAP hasher of (hashLen, canDecode) \<Rightarrow>
        (case (if canDecode
               then (case createLookupType registry ty of
                       Inl e \<Rightarrow> Inl e
                     | Inr n \<Rightarrow> createType registry n (subarray v (offset + hashLen) None))
               else createType registry ''Raw'' (subarray v offset (Some (offset + hashLen)))) of
           Inl e \<Rightarrow> Inl e
         | Inr decoded \<Rightarrow>
             Inr (offset + (hashLen + (if canDecode then encodedLength decoded else 0)),
                  result @ [decoded])))"

text \<open>\<^verbatim>\<open>Array.prototype.reduce\<close> with a callback that may throw.\<close>

fun reduce :: "('s \<Rightarrow> 'a \<Rightarrow> error + 's) \<Rightarrow> 'a list \<Rightarrow> 's \<Rightarrow> error + 's" where
  "reduce f [] s = Inr s"
| "reduce f (x # xs) s = (case f s x of Inl e \<Rightarrow> Inl e | Inr s' \<Rightarrow> reduce f xs s')"

text \<open>
  \<^verbatim>\<open>decodeHashers\<close>: \<^verbatim>\<open>let offset = 32\<close> ("the storage entry is xxhashAsU8a(prefix, 128) +
  xxhashAsU8a(method, 128), 256 bits total"), then the \<^verbatim>\<open>reduce\<close> from the empty list.
\<close>

definition decodeHashers ::
    "'v Registry \<Rightarrow> u8a \<Rightarrow> (StorageHasher \<times> SiLookupTypeId option) list \<Rightarrow>
     error + 'v Codec list" where
  "decodeHashers registry v hs =
     (case reduce (decodeHasher registry v) hs (32, []) of
        Inl e \<Rightarrow> Inl e
      | Inr (offset, result) \<Rightarrow> Inr result)"

text \<open>
  \<^verbatim>\<open>decodeArgsFromMeta\<close>: no arguments without a descriptor or for a plain entry; one hasher
  goes with the key type itself, any other number with the elements of the key type as a
  tuple, \<^verbatim>\<open>hashers.map((h, i) => [h, keys[i]])\<close>.
\<close>

definition decodeArgsFromMeta ::
    "'v Registry \<Rightarrow> u8a \<Rightarrow> StorageEntryMetadataLatest option \<Rightarrow> error + 'v Codec list" where
  "decodeArgsFromMeta registry v meta =
     (case meta of
        None \<Rightarrow> Inr []
      | Some m \<Rightarrow>
          (case type m of
             Plain t \<Rightarrow> Inr []
           | Map hs k vt \<Rightarrow>
               (case (if length hs = 1 then Inr [k] else getSiTypeDefAsTuple registry k) of
                  Inl e \<Rightarrow> Inl e
                | Inr keys \<Rightarrow>
                    decodeHashers registry v
                      (map (\<lambda>i. (hs ! i, at keys i)) [0..<length hs]))))"

subsection \<open>The class\<close>

text \<open>
  The fields \<^verbatim>\<open>_args, _meta, _outputType, _method, _section\<close> and the bytes of the
  superclass \<^verbatim>\<open>Bytes\<close>. \<^verbatim>\<open>_args\<close> is declared without an initialiser: it is \<open>None\<close>
  (\<^verbatim>\<open>undefined\<close>) until something is assigned to it.
\<close>

record 'v StorageKey =
  sk_bytes :: u8a
  sk_args :: "'v Codec list option"
  sk_meta :: "StorageEntryMetadataLatest option"
  sk_outputType :: string
  sk_method :: "string option"
  sk_section :: "string option"

text \<open>
  Modelled from the spec: \<^verbatim>\<open>Bytes.toU8a(true)\<close>, which is not part of the sources at hand,
  is the byte sequence without its length prefix.
\<close>

definition toU8a_bare :: "'v StorageKey \<Rightarrow> u8a" where
  "toU8a_bare this = sk_bytes this"

text \<open>\<^verbatim>\<open>a || b\<close> on values of type \<^verbatim>\<open>string | undefined\<close>: the empty string is falsy too.\<close>

definition or_else :: "string option \<Rightarrow> string option \<Rightarrow> string option" where
  "or_else a b = (case a of None \<Rightarrow> b | Some s \<Rightarrow> if s = [] then b else a)"

text \<open>\<^verbatim>\<open>is (key) { return key.section === this.section && key.method === this.method }\<close>\<close>

definition is_key :: "'v StorageKey \<Rightarrow> 'w StorageKey \<Rightarrow> bool" where
  "is_key this k \<longleftrightarrow> sk_section k = sk_section this \<and> sk_method k = sk_method this"

text \<open>
  \<^verbatim>\<open>setMeta\<close>. A throw of \<^verbatim>\<open>unwrapStorageType\<close> leaves the method with the three fields
  already assigned; a throw inside the \<^verbatim>\<open>try\<close> is caught and ignored, and then nothing is
  assigned to \<^verbatim>\<open>_args\<close>.
\<close>

definition setMeta ::
    "'v Registry \<Rightarrow> 'v StorageKey \<Rightarrow> StorageEntryMetadataLatest option \<Rightarrow> string option \<Rightarrow>
     string option \<Rightarrow> (error + unit) \<times> 'v StorageKey" where
  "setMeta registry this meta sect meth =
     (let this1 = this\<lparr>sk_meta := meta,
                       sk_method := or_else meth (sk_method this),
                       sk_section := or_else sect (sk_section this)\<rparr>
      in case (case meta of
                 None \<Rightarrow> Inr this1
               | Some m \<Rightarrow>
                   (case unwrapStorageType registry (type m) False of
                      Inl e \<Rightarrow> Inl e
                    | Inr t \<Rightarrow> Inr (this1\<lparr>sk_outputType := t\<rparr>))) of
           Inl e \<Rightarrow> (Inl e, this1)
         | Inr this2 \<Rightarrow>
             (case decodeArgsFromMeta registry (toU8a_bare this2) (sk_meta this2) of
                Inl e \<Rightarrow> (Inr (), this2)
              | Inr a \<Rightarrow> (Inr (), this2\<lparr>sk_args := Some a\<rparr>)))"

text \<open>
  The values the constructor accepts: nothing, a string, bytes, a key, a storage entry
  (a function with \<^verbatim>\<open>meta\<close>, \<^verbatim>\<open>method\<close> and \<^verbatim>\<open>section\<close>), a pair of an entry and arguments,
  or anything else.
\<close>

record 'a StorageEntry =
  se_call :: "'a list \<Rightarrow> error + u8a"
  se_meta :: "StorageEntryMetadataLatest option"
  se_method :: string
  se_section :: string

datatype ('v, 'a) StorageKeyInput =
    NoValue
  | FromString string
  | FromU8a u8a
  | FromKey "'v StorageKey"
  | FromEntry "'a StorageEntry"
  | FromEntryArgs "'a StorageEntry" "'a list option"
  | FromOther

datatype 'v KeySource = KeyAbsent | KeyString string | KeyU8a u8a | KeyOf "'v StorageKey"

record 'v Decoded =
  d_key :: "'v KeySource"
  d_method :: "string option"
  d_section :: "string option"

definition decodeStorageKey :: "('v, 'a) StorageKeyInput \<Rightarrow> error + 'v Decoded" where
  "decodeStorageKey v =
     (case v of
        FromKey k \<Rightarrow> Inr \<lparr>d_key = KeyOf k, d_method = sk_method k, d_section = sk_section k\<rparr>
      | NoValue \<Rightarrow> Inr \<lparr>d_key = KeyAbsent, d_method = None, d_section = None\<rparr>
      | FromString s \<Rightarrow> Inr \<lparr>d_key = KeyString s, d_method = None, d_section = None\<rparr>
      | FromU8a b \<Rightarrow> Inr \<lparr>d_key = KeyU8a b, d_method = None, d_section = None\<rparr>
      | FromEntry fn \<Rightarrow>
          (case se_call fn [] of
             Inl e \<Rightarrow> Inl e
           | Inr b \<Rightarrow> Inr \<lparr>d_key = KeyU8a b, d_method = Some (se_method fn),
                           d_section = Some (se_section fn)\<rparr>)
      | FromEntryArgs fn oargs \<Rightarrow>
          (let args = (case oargs of None \<Rightarrow> [] | Some as \<Rightarrow> as)
           in case (case se_meta fn of
                      Some m \<Rightarrow>
                        (case type m of
                           Map hs k vt \<Rightarrow>
                             if length args = length hs then Inr () else Inl AssertionFailed
                         | Plain t \<Rightarrow> Inr ())
                    | None \<Rightarrow> Inr ()) of
                Inl e \<Rightarrow> Inl e
              | Inr u \<Rightarrow>
                  (case se_call fn args of
                     Inl e \<Rightarrow> Inl e
                   | Inr b \<Rightarrow> Inr \<lparr>d_key = KeyU8a b, d_method = Some (se_method fn),
                                   d_section = Some (se_section fn)\<rparr>))
      | FromOther \<Rightarrow> Inl UnableToConvert)"

definition getMeta :: "('v, 'a) StorageKeyInput \<Rightarrow> StorageEntryMetadataLatest option" where
  "getMeta v =
     (case v of
        FromKey k \<Rightarrow> sk_meta k
      | FromEntry fn \<Rightarrow> se_meta fn
      | FromEntryArgs fn oargs \<Rightarrow> se_meta fn
      | _ \<Rightarrow> None)"

definition getType :: "'v Registry \<Rightarrow> ('v, 'a) StorageKeyInput \<Rightarrow> error + string" where
  "getType registry v =
     (case v of
        FromKey k \<Rightarrow> Inr (sk_outputType k)
      | FromEntry fn \<Rightarrow>
          (case se_meta fn of
             None \<Rightarrow> Inl TypeError
           | Some m \<Rightarrow> unwrapStorageType registry (type m) False)
      | FromEntryArgs fn oargs \<Rightarrow>
          (case se_meta fn of
             None \<Rightarrow> Inr ''Raw''
           | Some m \<Rightarrow> unwrapStorageType registry (type m) False)
      | _ \<Rightarrow> Inr ''Raw'')"

text \<open>
  The constructor. \<^verbatim>\<open>super(registry, key)\<close> is the constructor of \<^verbatim>\<open>Bytes\<close>, which is not
  part of the sources at hand: the parameter \<open>newBytes\<close>.
\<close>

definition new_StorageKey ::
    "'v Registry \<Rightarrow> ('v KeySource \<Rightarrow> error + u8a) \<Rightarrow> ('v, 'a) StorageKeyInput \<Rightarrow>
     string option \<Rightarrow> string option \<Rightarrow> error + 'v StorageKey" where
  "new_StorageKey registry newBytes v override_section override_method =
     (case decodeStorageKey v of
        Inl e \<Rightarrow> Inl e
      | Inr d \<Rightarrow>
          (case newBytes (d_key d) of
             Inl e \<Rightarrow> Inl e
           | Inr b \<Rightarrow>
               (case getType registry v of
                  Inl e \<Rightarrow> Inl e
                | Inr t \<Rightarrow>
                    (let this = \<lparr>sk_bytes = b, sk_args = None, sk_meta = None,
                                 sk_outputType = t, sk_method = None, sk_section = None\<rparr>
                     in case setMeta registry this (getMeta v)
                               (or_else override_section (d_section d))
                               (or_else override_method (d_method d)) of
                          (Inl e, this') \<Rightarrow> Inl e
                        | (Inr u, this') \<Rightarrow> Inr this'))))"

subsection \<open>Argument decoding, in the words of the specification\<close>

text \<open>
  "Argument decoding begins at offset 32"; "for a non-decodable hasher: advance the offset
  by the hash length only; the argument for that position is reconstructed as an opaque
  fixed-length raw byte value"; "for a decodable hasher: skip the hash-length prefix, then
  decode the declared value type starting at that offset; advance the offset by the hash
  length plus the decoded value's encodedLength". \<open>decodeFrom\<close> is that recursion from a
  given offset.
\<close>

fun decodeFrom ::
    "'v Registry \<Rightarrow> u8a \<Rightarrow> nat \<Rightarrow> (StorageHasher \<times> SiLookupTypeId option) list \<Rightarrow>
     error + 'v Codec list" where
  "decodeFrom registry v offset [] = Inr []"
| "decodeFrom registry v offset ((hasher, ty) # rest) =
     (if snd (HASHER_MAP hasher)
      then (case createLookupType registry ty of
              Inl e \<Rightarrow> Inl e
            | Inr n \<Rightarrow>
                (case createType registry n (drop (offset + fst (HASHER_MAP hasher)) v) of
                   Inl e \<Rightarrow> Inl e
                 | Inr d \<Rightarrow>
                     (case decodeFrom registry v
                             (offset + fst (HASHER_MAP hasher) + encodedLength d) rest of
                        Inl e \<Rightarrow> Inl e
                      | Inr ds \<Rightarrow> Inr (d # ds))))
      else (case decodeFrom registry v (offset + fst (HASHER_MAP hasher)) rest of
              Inl e \<Rightarrow> Inl e
            | Inr ds \<Rightarrow> Inr (Raw (take (fst (HASHER_MAP hasher)) (drop offset v)) # ds)))"

text \<open>The bytes a run over the hashers has moved the offset by.\<close>

fun consumed :: "(StorageHasher \<times> SiLookupTypeId option) list \<Rightarrow> 'v Codec list \<Rightarrow> nat" where
  "consumed ((hasher, ty) # rest) (a # as) =
     fst (HASHER_MAP hasher) + (if snd (HASHER_MAP hasher) then encodedLength a else 0) +
     consumed rest as"
| "consumed _ _ = 0"

text \<open>At a non-decodable hasher the argument is a raw value of exactly the hash length.\<close>

definition fixed_raw :: "StorageHasher \<times> SiLookupTypeId option \<Rightarrow> 'v Codec \<Rightarrow> bool" where
  "fixed_raw ht a \<longleftrightarrow>
     (snd (HASHER_MAP (fst ht)) \<or>
      (case a of Raw b \<Rightarrow> length b = fst (HASHER_MAP (fst ht)) | Decoded x n \<Rightarrow> False))"

subsection \<open>A registry to compute with\<close>

text \<open>
  A registry that knows one type, \<^verbatim>\<open>u32\<close> under the lookup id 4 (four bytes, little endian;
  fewer bytes are a decode error, as the spec asks of the codec primitives), and one tuple,
  \<^verbatim>\<open>(u32, u32)\<close> under the id 7; a \<^verbatim>\<open>Bytes\<close> constructor that takes bytes as they are; and a
  storage entry \<^verbatim>\<open>system.account\<close> of a given entry type whose function answers a given key.
\<close>

definition le_nat :: "u8a \<Rightarrow> nat" where
  "le_nat bs = foldr (\<lambda>b n. unat b + 256 * n) bs 0"

definition demoRegistry :: "nat Registry" where
  "demoRegistry =
     \<lparr>create = (\<lambda>ty b.
        if ty = ''u32''
        then (if 4 \<le> length b then Inr (Decoded (le_nat (take 4 b)) 4) else Inl DecodeError)
        else Inl UnknownType),
      createLookupType = (\<lambda>t.
        case t of None \<Rightarrow> Inl TypeError | Some i \<Rightarrow> Inr (if i = 4 then ''u32'' else ''Lookup'')),
      getSiTypeDefAsTuple = (\<lambda>k. if k = 7 then Inr [4, 4] else Inl TypeError),
      getSiName = (\<lambda>t. if t = 4 then Inr ''u32'' else Inl UnknownType)\<rparr>"

definition demoBytes :: "nat KeySource \<Rightarrow> error + u8a" where
  "demoBytes k =
     (case k of
        KeyAbsent \<Rightarrow> Inr []
      | KeyString s \<Rightarrow> Inl DecodeError
      | KeyU8a b \<Rightarrow> Inr b
      | KeyOf sk \<Rightarrow> Inr (sk_bytes sk))"

definition demoEntry :: "StorageEntryTypeLatest \<Rightarrow> u8a \<Rightarrow> unit StorageEntry" where
  "demoEntry ty k =
     \<lparr>se_call = (\<lambda>args. Inr k),
      se_meta = Some \<lparr>type = ty\<rparr>,
      se_method = ''account'', se_section = ''system''\<rparr>"

section \<open>Versioned metadata (MetadataVersioned.ts)\<close>

subsection \<open>Data\<close>

text \<open>
  \<^verbatim>\<open>type MetaVersions = 'latest' | 9 | 10 | 11 | 12 | 13 | 14\<close> and
  \<^verbatim>\<open>type MetaAsX = 'asV9' | ... | 'asV14'\<close>.
\<close>

datatype MetaVersions = Latest | V9 | V10 | V11 | V12 | V13 | V14

datatype MetaAsX = AsV9 | AsV10 | AsV11 | AsV12 | AsV13 | AsV14

definition LATEST_VERSION :: nat where
  "LATEST_VERSION = 14"

fun versionNumber :: "MetaVersions \<Rightarrow> nat option" where
  "versionNumber Latest = None"
| "versionNumber V9 = Some 9"
| "versionNumber V10 = Some 10"
| "versionNumber V11 = Some 11"
| "versionNumber V12 = Some 12"
| "versionNumber V13 = Some 13"
| "versionNumber V14 = Some 14"

fun asNumber :: "MetaAsX \<Rightarrow> nat" where
  "asNumber AsV9 = 9"
| "asNumber AsV10 = 10"
| "asNumber AsV11 = 11"
| "asNumber AsV12 = 12"
| "asNumber AsV13 = 13"
| "asNumber AsV14 = 14"

text \<open>
  The property name \<^verbatim>\<open>`asV${n}`\<close>; \<open>None\<close> when the class has no accessor of that name
  (\<^verbatim>\<open>this['asV8']\<close> is \<^verbatim>\<open>undefined\<close>).
\<close>

definition asV :: "nat \<Rightarrow> MetaAsX option" where
  "asV n =
     (if n = 9 then Some AsV9 else if n = 10 then Some AsV10
      else if n = 11 then Some AsV11 else if n = 12 then Some AsV12
      else if n = 13 then Some AsV13 else if n = 14 then Some AsV14
      else None)"

text \<open>
  The decoded \<^verbatim>\<open>MetadataAll\<close> enum: the variant index is the metadata version and the
  variant carries the schema value. The schema types \<^verbatim>\<open>MetadataV9 | ... | MetadataV14\<close>
  (\<^verbatim>\<open>MetaMapped\<close>) are one type parameter \<open>'m\<close>.
\<close>

record 'm MetadataAll =
  index :: nat
  inner :: 'm

text \<open>
  Modelled from the spec: the accessor \<^verbatim>\<open>asVN\<close> of the \<^verbatim>\<open>MetadataAll\<close> enum codec, which
  is not part of the sources at hand. It hands out the carried value when the enum is at
  variant \<open>N\<close> and throws otherwise.
\<close>

definition enumAs :: "MetaAsX \<Rightarrow> 'm MetadataAll \<Rightarrow> error + 'm" where
  "enumAs x md =
     (if index md = asNumber x then Inr (inner md)
      else Inl (EnumVariantMismatch (index md) (asNumber x)))"

text \<open>
  The class: the two struct fields, the registry reference and the private map
  \<^verbatim>\<open>#converted\<close>. The field \<open>calls\<close> is not in the source: it is a log that records, in
  order, the cache key of every call of a transform \<^verbatim>\<open>fromPrev\<close>, so that "the transform
  ran" can be stated.
\<close>

record ('r, 'm) MetadataVersioned =
  registry :: 'r
  magicNumber :: "32 word"
  metadata :: "'m MetadataAll"
  converted :: "MetaVersions \<rightharpoonup> 'm"
  calls :: "MetaVersions list"

text \<open>
  The imported one-step transforms \<^verbatim>\<open>toV10 ... toV14, toLatest\<close>, each of type
  \<^verbatim>\<open>(registry, input, metaVersion) => output\<close>. Their code is not part of the sources at
  hand, so they are parameters.
\<close>

record ('r, 'm) transforms =
  toV10 :: "'r \<Rightarrow> 'm \<Rightarrow> nat \<Rightarrow> 'm"
  toV11 :: "'r \<Rightarrow> 'm \<Rightarrow> nat \<Rightarrow> 'm"
  toV12 :: "'r \<Rightarrow> 'm \<Rightarrow> nat \<Rightarrow> 'm"
  toV13 :: "'r \<Rightarrow> 'm \<Rightarrow> nat \<Rightarrow> 'm"
  toV14 :: "'r \<Rightarrow> 'm \<Rightarrow> nat \<Rightarrow> 'm"
  toLatest :: "'r \<Rightarrow> 'm \<Rightarrow> nat \<Rightarrow> 'm"

type_synonym ('r, 'm) accessed = "(error + 'm) \<times> ('r, 'm) MetadataVersioned"

subsection \<open>Constructor and accessors\<close>

text \<open>\<^verbatim>\<open>new MetadataVersioned(registry, { magicNumber, metadata })\<close>: the cache starts empty.\<close>

definition new_MetadataVersioned ::
    "'r \<Rightarrow> 32 word \<Rightarrow> 'm MetadataAll \<Rightarrow> ('r, 'm) MetadataVersioned" where
  "new_MetadataVersioned reg magic md =
     \<lparr>registry = reg, magicNumber = magic, metadata = md, converted = Map.empty, calls = []\<rparr>"

text \<open>\<^verbatim>\<open>get version () { return this.#metadata().index }\<close>\<close>

definition version :: "('r, 'm) MetadataVersioned \<Rightarrow> nat" where
  "version this = index (metadata this)"

text \<open>
  \<^verbatim>\<open>#assertVersion\<close>: the assertion throws when the source version is above the requested
  one; otherwise the result says whether the two are equal.
\<close>

definition assertVersion :: "('r, 'm) MetadataVersioned \<Rightarrow> nat \<Rightarrow> error + bool" where
  "assertVersion this v =
     (if version this \<le> v then Inr (version this = v)
      else Inl (CannotConvert (version this) v))"

definition asV9 :: "('r, 'm) MetadataVersioned \<Rightarrow> ('r, 'm) accessed" where
  "asV9 this =
     (case assertVersion this 9 of
        Inl e \<Rightarrow> (Inl e, this)
      | Inr _ \<Rightarrow> (enumAs AsV9 (metadata this), this))"

text \<open>The two computed property names of \<^verbatim>\<open>#getVersion\<close>.\<close>

definition asCurr :: "MetaVersions \<Rightarrow> MetaAsX option" where
  "asCurr v = (case versionNumber v of None \<Rightarrow> None | Some n \<Rightarrow> asV n)"

definition asPrev :: "MetaVersions \<Rightarrow> MetaAsX option" where
  "asPrev v = (case versionNumber v of None \<Rightarrow> asV LATEST_VERSION | Some n \<Rightarrow> asV (n - 1))"

text \<open>The place of a cache key in the migration chain; \<^verbatim>\<open>'latest'\<close> comes after 14.\<close>

fun rank :: "MetaVersions \<Rightarrow> nat" where
  "rank V9 = 9"
| "rank V10 = 10"
| "rank V11 = 11"
| "rank V12 = 12"
| "rank V13 = 13"
| "rank V14 = 14"
| "rank Latest = 15"

text \<open>
  \<^verbatim>\<open>#getVersion(version, fromPrev)\<close> and the property read \<^verbatim>\<open>this[asX]\<close>, which runs the
  getter of that name. The getters \<^verbatim>\<open>asV10 ... asV14\<close> call \<^verbatim>\<open>#getVersion\<close> again, so the
  two are mutually recursive. No getter calls \<^verbatim>\<open>#getVersion\<close> with 9; there \<^verbatim>\<open>asPrev\<close>
  names no property and the model answers \<open>NoSuchProperty\<close>.
\<close>

function getVersion ::
    "('r, 'm) transforms \<Rightarrow> MetaVersions \<Rightarrow> ('r \<Rightarrow> 'm \<Rightarrow> nat \<Rightarrow> 'm) \<Rightarrow>
     ('r, 'm) MetadataVersioned \<Rightarrow> ('r, 'm) accessed"
  and this_get ::
    "('r, 'm) transforms \<Rightarrow> MetaAsX \<Rightarrow> ('r, 'm) MetadataVersioned \<Rightarrow> ('r, 'm) accessed"
where
  "getVersion T ver fromPrev this =
     (case (case versionNumber ver of
              None \<Rightarrow> Inr False
            | Some n \<Rightarrow> assertVersion this n) of
        Inl e \<Rightarrow> (Inl e, this)
      | Inr True \<Rightarrow>
          (case asCurr ver of
             None \<Rightarrow> (Inl NoSuchProperty, this)
           | Some x \<Rightarrow> (enumAs x (metadata this), this))
      | Inr False \<Rightarrow>
          (case converted this ver of
             Some v \<Rightarrow> (Inr v, this)
           | None \<Rightarrow>
               (case asPrev ver of
                  None \<Rightarrow> (Inl NoSuchProperty, this)
                | Some p \<Rightarrow>
                    (case this_get T p this of
                       (Inl e, this') \<Rightarrow> (Inl e, this')
                     | (Inr prev, this') \<Rightarrow>
                         (let v = fromPrev (registry this) prev (version this')
                          in (Inr v,
                              this'\<lparr>converted := (converted this')(ver \<mapsto> v),
                                    calls := calls this' @ [ver]\<rparr>))))))"
| "this_get T AsV9 this = asV9 this"
| "this_get T AsV10 this = getVersion T V10 (toV10 T) this"
| "this_get T AsV11 this = getVersion T V11 (toV11 T) this"
| "this_get T AsV12 this = getVersion T V12 (toV12 T) this"
| "this_get T AsV13 this = getVersion T V13 (toV13 T) this"
| "this_get T AsV14 this = getVersion T V14 (toV14 T) this"
  by pat_completeness auto

termination
proof (relation "measure (\<lambda>c. case c of
          Inl (T, ver, fromPrev, this) \<Rightarrow> 2 * rank ver
        | Inr (T, x, this) \<Rightarrow> 2 * asNumber x + 1)")
  show "wf (measure (\<lambda>c. case c of
          Inl (T :: ('r, 'm) transforms, ver, fromPrev :: 'r \<Rightarrow> 'm \<Rightarrow> nat \<Rightarrow> 'm,
               this :: ('r, 'm) MetadataVersioned) \<Rightarrow> 2 * rank ver
        | Inr (T :: ('r, 'm) transforms, x, this :: ('r, 'm) MetadataVersioned) \<Rightarrow>
            2 * asNumber x + 1))"
    by simp
qed (auto simp: asPrev_def asV_def LATEST_VERSION_def split: if_splits option.splits
       elim!: versionNumber.elims)

declare getVersion.simps [simp del]

text \<open>\<^verbatim>\<open>get asLatest () { return this.#getVersion('latest', toLatest) }\<close>\<close>

definition asLatest ::
    "('r, 'm) transforms \<Rightarrow> ('r, 'm) MetadataVersioned \<Rightarrow> ('r, 'm) accessed" where
  "asLatest T this = getVersion T Latest (toLatest T) this"

text \<open>
  \<^verbatim>\<open>toJSON\<close>: the getter \<^verbatim>\<open>asLatest\<close> is read for its effect, then \<^verbatim>\<open>super.toJSON()\<close>
  serialises the object. The serialiser of \<^verbatim>\<open>Struct\<close> is not part of the sources at hand
  and is a parameter; it receives the object as \<^verbatim>\<open>asLatest\<close> left it.
\<close>

definition toJSON ::
    "('r, 'm) transforms \<Rightarrow> (('r, 'm) MetadataVersioned \<Rightarrow> 'j) \<Rightarrow> ('r, 'm) MetadataVersioned \<Rightarrow>
     (error + 'j) \<times> ('r, 'm) MetadataVersioned" where
  "toJSON T superToJSON this =
     (case asLatest T this of
        (Inl e, this') \<Rightarrow> (Inl e, this')
      | (Inr latest, this') \<Rightarrow> (Inr (superToJSON this'), this'))"

text \<open>
  Modelled from the spec: \<^verbatim>\<open>registry.createType('MetadataAll', value, index)\<close>, which is
  not part of the sources at hand, builds the enum at the given variant index around the
  given value.
\<close>

definition createType_MetadataAll :: "'m \<Rightarrow> nat \<Rightarrow> 'm MetadataAll" where
  "createType_MetadataAll v i = \<lparr>index = i, inner = v\<rparr>"

text \<open>
  \<^verbatim>\<open>asCallsOnly\<close> returns a \<^verbatim>\<open>new MetadataVersioned\<close>. Whether two reads hand out the
  same object is a question of identity, so objects live in a store: a list of objects, a
  reference is a position in it, and \<^verbatim>\<open>new\<close> appends. A reference always denotes an
  allocated object; the last branch only makes the function total. The imported
  \<^verbatim>\<open>toCallsOnly\<close> is a parameter.
\<close>

type_synonym ('r, 'm) heap = "('r, 'm) MetadataVersioned list"

definition asCallsOnly ::
    "('r, 'm) transforms \<Rightarrow> ('r \<Rightarrow> 'm \<Rightarrow> 'm) \<Rightarrow> nat \<Rightarrow> ('r, 'm) heap \<Rightarrow>
     (error + nat) \<times> ('r, 'm) heap" where
  "asCallsOnly T toCallsOnly a h =
     (if a < length h then
        (let this = h ! a; magic = magicNumber this in
         case asLatest T this of
           (Inl e, this') \<Rightarrow> (Inl e, h[a := this'])
         | (Inr latest, this') \<Rightarrow>
             (let md = createType_MetadataAll (toCallsOnly (registry this) latest) LATEST_VERSION;
                  obj = new_MetadataVersioned (registry this) magic md
              in (Inr (length h), h[a := this'] @ [obj])))
      else (Inl TypeError, h))"

subsection \<open>The instances a program can hold\<close>

text \<open>
  Modelled from the spec: the range of the variant index. The enum \<^verbatim>\<open>MetadataAll\<close> is not
  part of the sources at hand; by the spec (section 3) a versioned metadata owns "one schema
  value tagged with its source version (9..14)".

  The cache is private, so an instance is what the constructor made, after any number of
  reads of its accessors. \<^verbatim>\<open>toJSON\<close>, \<^verbatim>\<open>getUniqTypes\<close> and \<^verbatim>\<open>asCallsOnly\<close> change the
  instance only through \<^verbatim>\<open>asLatest\<close>.
\<close>

inductive reachable :: "('r, 'm) transforms \<Rightarrow> ('r, 'm) MetadataVersioned \<Rightarrow> bool"
  for T :: "('r, 'm) transforms" where
  constructed:
    "9 \<le> index md \<Longrightarrow> index md \<le> 14 \<Longrightarrow> reachable T (new_MetadataVersioned reg magic md)"
| read: "reachable T this \<Longrightarrow> reachable T (snd (this_get T x this))"
| read_latest: "reachable T this \<Longrightarrow> reachable T (snd (asLatest T this))"

text \<open>Reading a list of accessors one after the other, whatever each read answers.\<close>

fun request_all ::
    "('r, 'm) transforms \<Rightarrow> MetaAsX list \<Rightarrow> ('r, 'm) MetadataVersioned \<Rightarrow>
     ('r, 'm) MetadataVersioned" where
  "request_all T [] this = this"
| "request_all T (x # xs) this = request_all T xs (snd (this_get T x this))"

subsection \<open>The migration chain, in the words of the specification\<close>

text \<open>
  "Migrating to any higher version is computed by chaining the single-step transform from
  version N-1 to N": \<open>migrate T r V e N\<close> is the embedded value \<open>e\<close> of source version \<open>V\<close>
  taken through the transforms \<open>V \<rightarrow> V+1 \<rightarrow> ... \<rightarrow> N\<close>, each of them given the registry and the
  source version. It looks at no cache.
\<close>

fun verOf :: "MetaAsX \<Rightarrow> MetaVersions" where
  "verOf AsV9 = V9"
| "verOf AsV10 = V10"
| "verOf AsV11 = V11"
| "verOf AsV12 = V12"
| "verOf AsV13 = V13"
| "verOf AsV14 = V14"

fun oneStep :: "('r, 'm) transforms \<Rightarrow> MetaVersions \<Rightarrow> ('r \<Rightarrow> 'm \<Rightarrow> nat \<Rightarrow> 'm)" where
  "oneStep T V9 = (\<lambda>r m v. m)"
| "oneStep T V10 = toV10 T"
| "oneStep T V11 = toV11 T"
| "oneStep T V12 = toV12 T"
| "oneStep T V13 = toV13 T"
| "oneStep T V14 = toV14 T"
| "oneStep T Latest = toLatest T"

fun before :: "MetaVersions \<Rightarrow> MetaVersions" where
  "before V9 = V9"
| "before V10 = V9"
| "before V11 = V10"
| "before V12 = V11"
| "before V13 = V12"
| "before V14 = V13"
| "before Latest = V14"

function migrate :: "('r, 'm) transforms \<Rightarrow> 'r \<Rightarrow> nat \<Rightarrow> 'm \<Rightarrow> MetaVersions \<Rightarrow> 'm" where
  "migrate T r V e N =
     (if rank N \<le> V \<or> N = V9 then e else oneStep T N r (migrate T r V e (before N)) V)"
  by pat_completeness auto
termination
  by (relation "measure (\<lambda>(T, r, V, e, N). rank N)") (auto, case_tac N, simp_all)

declare migrate.simps [simp del]

text \<open>
  The invariant of the cache: every entry lies above the source version and holds the
  chain's value for its key, and the log lists the cached keys, each once.
\<close>

definition cache_ok :: "('r, 'm) transforms \<Rightarrow> ('r, 'm) MetadataVersioned \<Rightarrow> bool" where
  "cache_ok T this \<longleftrightarrow>
     9 \<le> version this \<and> version this \<le> 14 \<and>
     (\<forall>v m. converted this v = Some m \<longrightarrow>
        version this < rank v \<and>
        m = migrate T (registry this) (version this) (inner (metadata this)) v) \<and>
     distinct (calls this) \<and> set (calls this) = dom (converted this)"

text \<open>What a read up to key \<open>N\<close> may change: nothing but the cache, which only grows.\<close>

definition grown ::
    "MetaVersions \<Rightarrow> ('r, 'm) MetadataVersioned \<Rightarrow> ('r, 'm) MetadataVersioned \<Rightarrow> bool" where
  "grown N this this' \<longleftrightarrow>
     registry this' = registry this \<and> magicNumber this' = magicNumber this \<and>
     metadata this' = metadata this \<and>
     converted this \<subseteq>\<^sub>m converted this' \<and>
     dom (converted this') \<subseteq>
       dom (converted this) \<union> {v. version this < rank v \<and> rank v \<le> rank N} \<and>
     (\<exists>new. calls this' = calls this @ new)"

definition get_spec ::
    "('r, 'm) transforms \<Rightarrow> MetaVersions \<Rightarrow> ('r, 'm) MetadataVersioned \<Rightarrow>
     ('r, 'm) accessed \<Rightarrow> bool" where
  "get_spec T N this res \<longleftrightarrow>
     (if rank N < version this then res = (Inl (CannotConvert (version this) (rank N)), this)
      else if rank N = version this then res = (Inr (inner (metadata this)), this)
      else fst res = Inr (migrate T (registry this) (version this) (inner (metadata this)) N) \<and>
           converted (snd res) N =
             Some (migrate T (registry this) (version this) (inner (metadata this)) N) \<and>
           cache_ok T (snd res) \<and> grown N this (snd res))"

subsection \<open>An instance to compute with\<close>

text \<open>
  Transforms that append their target version to a list (15 for \<^verbatim>\<open>'latest'\<close>), so that the
  value shows the chain it went through, and a freshly constructed instance of a given
  source version around the empty list.
\<close>

definition traceT :: "(unit, nat list) transforms" where
  "traceT =
     \<lparr>toV10 = (\<lambda>_ m _. m @ [10]), toV11 = (\<lambda>_ m _. m @ [11]), toV12 = (\<lambda>_ m _. m @ [12]),
      toV13 = (\<lambda>_ m _. m @ [13]), toV14 = (\<lambda>_ m _. m @ [14]), toLatest = (\<lambda>_ m _. m @ [15])\<rparr>"

definition fresh_at :: "nat \<Rightarrow> (unit, nat list) MetadataVersioned" where
  "fresh_at V = new_MetadataVersioned () 0x6174656D \<lparr>index = V, inner = []\<rparr>"

section \<open>Properties of the versioned metadata\<close>

subsection \<open>The example instance\<close>

lemma fresh_at_reachable: "9 \<le> V \<Longrightarrow> V \<le> 14 \<Longrightarrow> reachable T (fresh_at V)"
  unfolding fresh_at_def by (rule reachable.constructed) simp_all

lemma version_fresh_at: "version (fresh_at V) = V"
  by (simp add: fresh_at_def version_def new_MetadataVersioned_def)

lemma fresh_at_fields:
  "registry (fresh_at V) = ()" "magicNumber (fresh_at V) = 0x6174656D"
  "metadata (fresh_at V) = \<lparr>index = V, inner = []\<rparr>"
  "converted (fresh_at V) = Map.empty" "calls (fresh_at V) = []"
  by (simp_all add: fresh_at_def new_MetadataVersioned_def)

subsection \<open>The cache invariant\<close>

lemma grown_refl: "grown N this this"
  by (simp add: grown_def)

lemma asV9_spec: "cache_ok T this \<Longrightarrow> get_spec T V9 this (asV9 this)"
  by (auto simp: get_spec_def asV9_def assertVersion_def enumAs_def cache_ok_def version_def)

lemma rank_before: "N \<noteq> V9 \<Longrightarrow> rank N = Suc (rank (before N))"
  by (cases N) auto

lemma rank_inj: "rank a = rank b \<Longrightarrow> a = b"
  by (cases a; cases b) auto

lemma migrate_self: "rank N \<le> V \<Longrightarrow> migrate T r V e N = e"
  by (subst migrate.simps) simp

lemma migrate_example:
  "migrate T r 11 e V14 = toV14 T r (toV13 T r (toV12 T r e 11) 11) 11"
  by (simp add: migrate.simps)

lemma migrate_step:
  "V < rank N \<Longrightarrow> N \<noteq> V9 \<Longrightarrow>
   migrate T r V e N = oneStep T N r (migrate T r V e (before N)) V"
  by (subst migrate.simps) simp

lemma cache_ok_store:
  assumes ok: "cache_ok T this" and none: "converted this N = None"
    and gt: "version this < rank N"
    and v: "v = migrate T (registry this) (version this) (inner (metadata this)) N"
  shows "cache_ok T (this\<lparr>converted := (converted this)(N \<mapsto> v), calls := calls this @ [N]\<rparr>)"
proof -
  from none ok have "N \<notin> set (calls this)"
    by (auto simp: cache_ok_def)
  with ok gt v show ?thesis
    by (auto simp: cache_ok_def version_def)
qed

lemma grown_store:
  assumes g: "grown M this this'" and le: "rank M \<le> rank N"
    and none: "converted this' N = None" and gt: "version this < rank N"
  shows "grown N this (this'\<lparr>converted := (converted this')(N \<mapsto> v), calls := calls this' @ [N]\<rparr>)"
proof -
  from g none have "converted this \<subseteq>\<^sub>m (converted this')(N \<mapsto> v)"
    by (auto simp: grown_def map_le_def dom_def)
  with g le gt show ?thesis
    by (auto simp: grown_def)
qed

lemma getVersion_step:
  assumes p: "asPrev N = Some p" "before N = verOf p" "N \<noteq> V9"
    and ok: "cache_ok T this"
    and prev: "get_spec T (verOf p) this (this_get T p this)"
  shows "get_spec T N this (getVersion T N (oneStep T N) this)"
proof -
  let ?V = "version this" and ?e = "inner (metadata this)" and ?r = "registry this"
  let ?mig = "migrate T ?r ?V ?e"
  from p have vn: "versionNumber N = None \<and> N = Latest \<or> versionNumber N = Some (rank N) \<and> N \<noteq> Latest"
    by (cases N) auto
  from p have cur: "N \<noteq> Latest \<Longrightarrow> \<exists>x. asCurr N = Some x \<and> asNumber x = rank N"
    by (cases N) (auto simp: asCurr_def asV_def)
  from ok have range: "9 \<le> ?V" "?V \<le> 14"
    by (auto simp: cache_ok_def)
  consider (down) "rank N < ?V" | (same) "rank N = ?V" | (up) "?V < rank N"
    by linarith
  then show ?thesis
  proof cases
    case down
    then have "N \<noteq> Latest" using range by auto
    with vn down show ?thesis
      by (subst getVersion.simps) (auto simp: get_spec_def assertVersion_def)
  next
    case same
    then have nl: "N \<noteq> Latest" using range by auto
    from cur [OF nl] obtain x where x: "asCurr N = Some x" "asNumber x = rank N"
      by blast
    from vn nl same x show ?thesis
      by (subst getVersion.simps) (auto simp: get_spec_def assertVersion_def enumAs_def version_def)
  next
    case up
    have assert: "(case versionNumber N of None \<Rightarrow> Inr False | Some n \<Rightarrow> assertVersion this n) = Inr False"
      using vn up by (auto simp: assertVersion_def)
    show ?thesis
    proof (cases "converted this N")
      case (Some v)
      with ok have "v = ?mig N"
        by (auto simp: cache_ok_def)
      with Some assert up ok show ?thesis
        by (subst getVersion.simps) (auto simp: get_spec_def grown_refl)
    next
      case None
      have rb: "rank N = Suc (rank (verOf p))"
        using rank_before [OF p(3)] p(2) by simp
      obtain r this' where res: "this_get T p this = (r, this')"
        by (cases "this_get T p this")
      have facts: "r = Inr (?mig (verOf p)) \<and> cache_ok T this' \<and> grown (verOf p) this this'"
      proof (cases "rank (verOf p) = ?V")
        case True
        with prev res ok show ?thesis
          by (auto simp: get_spec_def migrate_self grown_refl)
      next
        case False
        with up rb have "?V < rank (verOf p)" by simp
        with prev res show ?thesis
          by (auto simp: get_spec_def)
      qed
      then have r: "r = Inr (?mig (verOf p))" and ok': "cache_ok T this'"
        and g: "grown (verOf p) this this'"
        by simp_all
      from g have same: "registry this' = ?r" "version this' = ?V" "inner (metadata this') = ?e"
        by (auto simp: grown_def version_def)
      from g None rb have none': "converted this' N = None"
        by (auto simp: grown_def dom_def subset_iff)
      let ?v = "oneStep T N ?r (?mig (verOf p)) ?V"
      let ?this'' = "this'\<lparr>converted := (converted this')(N \<mapsto> ?v), calls := calls this' @ [N]\<rparr>"
      have v: "?v = ?mig N"
        using migrate_step [where T = T and r = "?r" and e = "?e", OF up p(3)] p(2) by simp
      have out: "getVersion T N (oneStep T N) this = (Inr ?v, ?this'')"
        using assert None p(1) res r same by (subst getVersion.simps) (simp add: Let_def)
      have "cache_ok T ?this''"
        using cache_ok_store [OF ok' none'] up v same by simp
      moreover have "grown N this ?this''"
        using grown_store [OF g _ none' up] rb by simp
      ultimately show ?thesis
        using out up v by (simp add: get_spec_def)
    qed
  qed
qed

lemma this_get_spec: "cache_ok T this \<Longrightarrow> get_spec T (verOf x) this (this_get T x this)"
proof -
  assume ok: "cache_ok T this"
  have 9: "get_spec T (verOf AsV9) this (this_get T AsV9 this)"
    using asV9_spec [OF ok] by simp
  have 10: "get_spec T (verOf AsV10) this (this_get T AsV10 this)"
    using getVersion_step [of V10 AsV9, OF _ _ _ ok 9] by (simp add: asPrev_def asV_def)
  have 11: "get_spec T (verOf AsV11) this (this_get T AsV11 this)"
    using getVersion_step [of V11 AsV10, OF _ _ _ ok 10] by (simp add: asPrev_def asV_def)
  have 12: "get_spec T (verOf AsV12) this (this_get T AsV12 this)"
    using getVersion_step [of V12 AsV11, OF _ _ _ ok 11] by (simp add: asPrev_def asV_def)
  have 13: "get_spec T (verOf AsV13) this (this_get T AsV13 this)"
    using getVersion_step [of V13 AsV12, OF _ _ _ ok 12] by (simp add: asPrev_def asV_def)
  have 14: "get_spec T (verOf AsV14) this (this_get T AsV14 this)"
    using getVersion_step [of V14 AsV13, OF _ _ _ ok 13] by (simp add: asPrev_def asV_def)
  from 9 10 11 12 13 14 show ?thesis
    by (cases x) simp_all
qed

lemma asLatest_spec: "cache_ok T this \<Longrightarrow> get_spec T Latest this (asLatest T this)"
  using getVersion_step [of Latest AsV14 T this] this_get_spec [of T this AsV14]
  by (simp add: asPrev_def asV_def LATEST_VERSION_def asLatest_def)


lemma cache_ok_new:
  "9 \<le> index md \<Longrightarrow> index md \<le> 14 \<Longrightarrow> cache_ok T (new_MetadataVersioned reg magic md)"
  by (simp add: cache_ok_def new_MetadataVersioned_def version_def)

lemma get_spec_cache_ok: "cache_ok T this \<Longrightarrow> get_spec T N this res \<Longrightarrow> cache_ok T (snd res)"
  by (auto simp: get_spec_def split: if_splits)

lemma reachable_cache_ok: "reachable T this \<Longrightarrow> cache_ok T this"
proof (induction rule: reachable.induct)
  case (constructed md reg magic)
  then show ?case by (rule cache_ok_new)
next
  case (read this x)
  then show ?case using get_spec_cache_ok this_get_spec by blast
next
  case (read_latest this)
  then show ?case using get_spec_cache_ok asLatest_spec by blast
qed

lemma get_spec_frame:
  "get_spec T N this res \<Longrightarrow>
   registry (snd res) = registry this \<and> magicNumber (snd res) = magicNumber this \<and>
   metadata (snd res) = metadata this"
  by (auto simp: get_spec_def grown_def split: if_splits)

lemma request_all_reachable: "reachable T this \<Longrightarrow> reachable T (request_all T xs this)"
  by (induction xs arbitrary: this) (auto intro: reachable.read)

lemma request_all_frame:
  "cache_ok T this \<Longrightarrow>
   registry (request_all T xs this) = registry this \<and>
   metadata (request_all T xs this) = metadata this"
proof (induction xs arbitrary: this)
  case Nil
  then show ?case by simp
next
  case (Cons x xs)
  from Cons.prems have s: "get_spec T (verOf x) this (this_get T x this)"
    by (rule this_get_spec)
  with Cons.prems have "cache_ok T (snd (this_get T x this))"
    using get_spec_cache_ok by blast
  from Cons.IH [OF this] get_spec_frame [OF s] show ?case by simp
qed

lemma rank_verOf: "rank (verOf x) = asNumber x"
  by (cases x) auto

lemma this_get_up:
  assumes ok: "cache_ok T this" and up: "version this < asNumber x"
  shows "fst (this_get T x this) =
           Inr (migrate T (registry this) (version this) (inner (metadata this)) (verOf x))"
    and "converted (snd (this_get T x this)) (verOf x) =
           Some (migrate T (registry this) (version this) (inner (metadata this)) (verOf x))"
    and "cache_ok T (snd (this_get T x this))"
  using this_get_spec [OF ok, of x] up by (auto simp: get_spec_def rank_verOf)

lemma getVersion_cached:
  assumes "versionNumber N = Some n" "version this < n" "converted this N = Some m"
  shows "getVersion T N f this = (Inr m, this)"
  using assms by (subst getVersion.simps) (simp add: assertVersion_def)

lemma this_get_cached:
  assumes "9 \<le> version this" "version this < asNumber x" "converted this (verOf x) = Some m"
  shows "this_get T x this = (Inr m, this)"
  using assms by (cases x) (simp_all add: getVersion_cached)

text \<open>
  Claim C1. For an instance of source version \<open>V\<close> and an accessor \<^verbatim>\<open>asVN\<close> with
  \<open>V < N \<le> 14\<close>: the read answers the chain \<open>V \<rightarrow> V+1 \<rightarrow> ... \<rightarrow> N\<close> of one-step transforms
  applied to the embedded value; a second read answers the same value and leaves the
  instance, its log of transform calls included, as the first read left it; no transform
  is logged twice and the one for \<open>N\<close> is logged; and the read answers the same after any
  sequence \<open>xs\<close> of earlier reads (step by step) as it does directly.
\<close>

theorem asVN_chained_once:
  assumes "reachable T this" and "version this < asNumber x"
  shows "fst (this_get T x this) =
           Inr (migrate T (registry this) (version this) (inner (metadata this)) (verOf x))
         \<and> this_get T x (snd (this_get T x this)) =
             (fst (this_get T x this), snd (this_get T x this))
         \<and> distinct (calls (snd (this_get T x this)))
         \<and> verOf x \<in> set (calls (snd (this_get T x this)))
         \<and> fst (this_get T x (request_all T xs this)) = fst (this_get T x this)"
proof -
  let ?s = "snd (this_get T x this)"
  let ?m = "migrate T (registry this) (version this) (inner (metadata this)) (verOf x)"
  from assms(1) have ok: "cache_ok T this" by (rule reachable_cache_ok)
  note up = this_get_up [OF ok assms(2)]
  have frame: "version ?s = version this"
    using get_spec_frame [OF this_get_spec [OF ok, of x]] by (simp add: version_def)
  have again: "this_get T x ?s = (Inr ?m, ?s)"
    using this_get_cached [of ?s x ?m T] frame assms(2) up(2) ok by (simp add: cache_ok_def)
  have log: "distinct (calls ?s) \<and> verOf x \<in> set (calls ?s)"
    using up(2,3) by (auto simp: cache_ok_def)
  have ok': "cache_ok T (request_all T xs this)"
    using request_all_reachable [OF assms(1)] by (rule reachable_cache_ok)
  have "fst (this_get T x (request_all T xs this)) = Inr ?m"
    using this_get_up(1) [OF ok', of x] request_all_frame [OF ok, of xs] assms(2)
    by (simp add: version_def)
  with up(1) again log show ?thesis by simp
qed


theorem asVN_chained_once_witness:
  "reachable traceT (fresh_at 9) \<and> version (fresh_at 9) < asNumber AsV12 \<and>
   fst (this_get traceT AsV12 (fresh_at 9)) = Inr [10, 11, 12] \<and>
   this_get traceT AsV12 (snd (this_get traceT AsV12 (fresh_at 9))) =
     (Inr [10, 11, 12], snd (this_get traceT AsV12 (fresh_at 9))) \<and>
   fst (this_get traceT AsV12 (request_all traceT [AsV10, AsV11] (fresh_at 9))) =
     Inr [10, 11, 12]"
proof -
  have r: "reachable traceT (fresh_at 9)"
    by (rule fresh_at_reachable) simp_all
  have lt: "version (fresh_at 9) < asNumber AsV12"
    by (simp add: version_fresh_at)
  have m: "migrate traceT (registry (fresh_at 9)) 9 (inner (metadata (fresh_at 9))) V12 = [10, 11, 12]"
    by (simp add: migrate.simps traceT_def fresh_at_def new_MetadataVersioned_def)
  from asVN_chained_once [OF r lt, of "[AsV10, AsV11]"] r lt m show ?thesis
    by (simp add: version_fresh_at prod_eq_iff)
qed

lemma getVersion_downgrade:
  assumes "versionNumber N = Some n" "n < version this"
  shows "getVersion T N f this = (Inl (CannotConvert (version this) n), this)"
  using assms by (subst getVersion.simps) (simp add: assertVersion_def)

lemma getVersion_direct:
  assumes "versionNumber N = Some n" "n = version this" "asCurr N = Some x" "asNumber x = n"
  shows "getVersion T N f this = (Inr (inner (metadata this)), this)"
  using assms by (subst getVersion.simps) (simp add: assertVersion_def enumAs_def version_def)

lemma this_get_downgrade:
  "asNumber x < version this \<Longrightarrow>
   this_get T x this = (Inl (CannotConvert (version this) (asNumber x)), this)"
  by (cases x) (simp_all add: getVersion_downgrade asV9_def assertVersion_def)

lemma this_get_direct:
  "asNumber x = version this \<Longrightarrow> this_get T x this = (Inr (inner (metadata this)), this)"
  by (cases x)
     (simp_all add: getVersion_direct asCurr_def asV_def asV9_def assertVersion_def enumAs_def
        version_def)

text \<open>
  Claim C3. For every instance, whatever its cache holds, and every accessor \<^verbatim>\<open>asVN\<close>
  with \<open>N\<close> in 9..14: below the source version the read fails with the version-downgrade
  error \<open>CannotConvert V N\<close>; at the source version it answers the embedded value and
  leaves the instance as it was (no transform logged, cache untouched), also when the
  cache and the log are replaced by any others, so the cache is not consulted.
\<close>

theorem asVN_downgrade_or_direct:
  "(asNumber x < version this \<longrightarrow>
      this_get T x this = (Inl (CannotConvert (version this) (asNumber x)), this)) \<and>
   (asNumber x = version this \<longrightarrow>
      this_get T x this = (Inr (inner (metadata this)), this) \<and>
      this_get T x (this\<lparr>converted := c, calls := l\<rparr>) =
        (Inr (inner (metadata this)), this\<lparr>converted := c, calls := l\<rparr>))"
  using this_get_downgrade [of x this T] this_get_direct [of x this T]
    this_get_direct [of x "this\<lparr>converted := c, calls := l\<rparr>" T]
  by (simp add: version_def)

theorem asVN_downgrade_or_direct_witness:
  "asNumber AsV9 < version (fresh_at 10) \<and>
   this_get traceT AsV9 (fresh_at 10) = (Inl (CannotConvert 10 9), fresh_at 10) \<and>
   asNumber AsV10 = version (fresh_at 10) \<and>
   this_get traceT AsV10 (fresh_at 10) = (Inr [], fresh_at 10) \<and>
   this_get traceT AsV10 (fresh_at 10\<lparr>converted := [V10 \<mapsto> [7]], calls := [V10]\<rparr>) =
     (Inr [], fresh_at 10\<lparr>converted := [V10 \<mapsto> [7]], calls := [V10]\<rparr>)"
  using asVN_downgrade_or_direct [where x = AsV9 and this = "fresh_at 10" and T = traceT]
    asVN_downgrade_or_direct [where x = AsV10 and this = "fresh_at 10" and T = traceT
      and c = "[V10 \<mapsto> [7]]" and l = "[V10]"]
  by (simp add: version_fresh_at) (simp add: fresh_at_def new_MetadataVersioned_def)

lemma asLatest_facts:
  assumes ok: "cache_ok T this"
  shows "fst (asLatest T this) =
           Inr (migrate T (registry this) (version this) (inner (metadata this)) Latest)"
    and "converted (snd (asLatest T this)) Latest =
           Some (migrate T (registry this) (version this) (inner (metadata this)) Latest)"
    and "cache_ok T (snd (asLatest T this))"
    and "grown Latest this (snd (asLatest T this))"
  using asLatest_spec [OF ok] ok by (auto simp: get_spec_def cache_ok_def)

lemma migrate_Latest:
  "V \<le> 14 \<Longrightarrow> migrate T r V e Latest = toLatest T r (migrate T r V e V14) V"
  by (subst migrate.simps) simp

lemma this_get_AsV14:
  assumes ok: "cache_ok T this"
  shows "fst (this_get T AsV14 this) =
           Inr (migrate T (registry this) (version this) (inner (metadata this)) V14)"
  using this_get_spec [OF ok, of AsV14] ok
  by (auto simp: get_spec_def cache_ok_def migrate_self split: if_splits)

text \<open>
  Claim C4. For every instance, \<^verbatim>\<open>asLatest\<close> answers \<^verbatim>\<open>toLatest\<close> applied to the value
  \<^verbatim>\<open>asV14\<close> answers, stores it under the key \<^verbatim>\<open>'latest'\<close>, and the call of \<^verbatim>\<open>toLatest\<close> is
  in the log; at source version 14 it is \<^verbatim>\<open>toLatest\<close> of the embedded value.
\<close>

theorem asLatest_normalizes:
  assumes "reachable T this"
  shows "fst (this_get T AsV14 this) =
           Inr (migrate T (registry this) (version this) (inner (metadata this)) V14)
         \<and> fst (asLatest T this) =
             Inr (toLatest T (registry this)
                    (migrate T (registry this) (version this) (inner (metadata this)) V14)
                    (version this))
         \<and> converted (snd (asLatest T this)) Latest =
             Some (toLatest T (registry this)
                    (migrate T (registry this) (version this) (inner (metadata this)) V14)
                    (version this))
         \<and> Latest \<in> set (calls (snd (asLatest T this)))
         \<and> (version this = 14 \<longrightarrow>
              fst (asLatest T this) =
                Inr (toLatest T (registry this) (inner (metadata this)) 14))"
proof -
  from assms have ok: "cache_ok T this" by (rule reachable_cache_ok)
  then have le: "version this \<le> 14" by (simp add: cache_ok_def)
  note f = asLatest_facts [OF ok]
  have "Latest \<in> set (calls (snd (asLatest T this)))"
    using f(2,3) by (auto simp: cache_ok_def)
  moreover have "version this = 14 \<Longrightarrow>
      migrate T (registry this) (version this) (inner (metadata this)) V14 = inner (metadata this)"
    by (simp add: migrate_self)
  ultimately show ?thesis
    using f(1,2) this_get_AsV14 [OF ok] migrate_Latest [OF le, of T] by auto
qed

theorem asLatest_normalizes_witness:
  "reachable traceT (fresh_at 14) \<and> version (fresh_at 14) = 14 \<and>
   fst (this_get traceT AsV14 (fresh_at 14)) = Inr [] \<and>
   fst (asLatest traceT (fresh_at 14)) = Inr [15] \<and>
   converted (snd (asLatest traceT (fresh_at 14))) Latest = Some [15] \<and>
   Latest \<in> set (calls (snd (asLatest traceT (fresh_at 14))))"
proof -
  have r: "reachable traceT (fresh_at 14)"
    by (rule fresh_at_reachable) simp_all
  have m: "migrate traceT () 14 [] V14 = []"
    by (simp add: migrate.simps)
  from asLatest_normalizes [OF r] r m show ?thesis
    by (simp add: version_fresh_at) (simp add: fresh_at_def new_MetadataVersioned_def traceT_def)
qed

text \<open>
  Claim C8. For every instance, \<^verbatim>\<open>toJSON\<close> serialises the instance as \<^verbatim>\<open>asLatest\<close> left
  it: the key \<^verbatim>\<open>'latest'\<close> of the cache holds the normalised value and the call of
  \<^verbatim>\<open>toLatest\<close> is in the log before the serialiser runs.
\<close>

theorem toJSON_forces_asLatest:
  assumes "reachable T this"
  shows "toJSON T superToJSON this =
           (Inr (superToJSON (snd (asLatest T this))), snd (asLatest T this))
         \<and> converted (snd (asLatest T this)) Latest =
             Some (toLatest T (registry this)
                    (migrate T (registry this) (version this) (inner (metadata this)) V14)
                    (version this))
         \<and> Latest \<in> set (calls (snd (asLatest T this)))"
proof -
  from assms have ok: "cache_ok T this" by (rule reachable_cache_ok)
  then have le: "version this \<le> 14" by (simp add: cache_ok_def)
  note f = asLatest_facts [OF ok]
  have log: "Latest \<in> set (calls (snd (asLatest T this)))"
    using f(2,3) by (auto simp: cache_ok_def)
  have out: "toJSON T superToJSON this =
               (Inr (superToJSON (snd (asLatest T this))), snd (asLatest T this))"
    using f(1) by (cases "asLatest T this") (simp add: toJSON_def)
  from out log f(2) migrate_Latest [OF le, of T] show ?thesis by simp
qed

theorem toJSON_forces_asLatest_witness:
  "reachable traceT (fresh_at 9) \<and>
   toJSON traceT magicNumber (fresh_at 9) =
     (Inr (magicNumber (snd (asLatest traceT (fresh_at 9)))), snd (asLatest traceT (fresh_at 9))) \<and>
   converted (snd (asLatest traceT (fresh_at 9))) Latest = Some [10, 11, 12, 13, 14, 15] \<and>
   Latest \<in> set (calls (snd (asLatest traceT (fresh_at 9))))"
proof -
  have r: "reachable traceT (fresh_at 9)"
    by (rule fresh_at_reachable) simp_all
  have m: "toLatest traceT (registry (fresh_at 9))
             (migrate traceT (registry (fresh_at 9)) (version (fresh_at 9))
                (inner (metadata (fresh_at 9))) V14)
             (version (fresh_at 9)) = [10, 11, 12, 13, 14, 15]"
    by (simp add: migrate.simps traceT_def version_fresh_at fresh_at_fields)
  from toJSON_forces_asLatest [OF r, of magicNumber] r show ?thesis
    unfolding m by simp
qed

text \<open>
  Claim C10 as stated lets the original change only by its cache gaining the \<^verbatim>\<open>'latest'\<close>
  entry. On a fresh instance of source version 13 the read also stores the entry for 14.
\<close>

theorem asCallsOnly_caches_intermediate:
  "converted ([fresh_at 13] ! 0) V14 = None \<and>
   converted (snd (asCallsOnly traceT (\<lambda>r m. m) 0 [fresh_at 13]) ! 0) V14 = Some [14]"
  by (simp add: Let_def asCallsOnly_def asLatest_def getVersion.simps fresh_at_def new_MetadataVersioned_def traceT_def
      assertVersion_def version_def asCurr_def asPrev_def asV_def LATEST_VERSION_def enumAs_def)


text \<open>
  Claim C10, as amended. A read of \<^verbatim>\<open>asCallsOnly\<close> on the object at \<open>a\<close> allocates a new
  object (the reference returned is the first free position of the store) with the
  original's registry and magic number, metadata at variant 14 around the calls-only
  projection of \<^verbatim>\<open>asLatest\<close>, an empty cache and an empty log; a second read allocates
  another one. Every other object is untouched. The original keeps its registry, magic
  number and metadata; its cache keeps every entry it had, holds \<^verbatim>\<open>'latest'\<close> afterwards,
  and gains entries only for keys above the source version.
\<close>

theorem asCallsOnly_new_instance:
  assumes "a < length h" and "reachable T (h ! a)"
  shows "fst (asCallsOnly T toCallsOnly a h) = Inr (length h)
       \<and> length (snd (asCallsOnly T toCallsOnly a h)) = Suc (length h)
       \<and> snd (asCallsOnly T toCallsOnly a h) ! length h =
           \<lparr>registry = registry (h ! a), magicNumber = magicNumber (h ! a),
            metadata = \<lparr>index = 14,
              inner = toCallsOnly (registry (h ! a))
                (toLatest T (registry (h ! a))
                   (migrate T (registry (h ! a)) (version (h ! a)) (inner (metadata (h ! a))) V14)
                   (version (h ! a)))\<rparr>,
            converted = Map.empty, calls = []\<rparr>
       \<and> (\<forall>b < length h. b \<noteq> a \<longrightarrow> snd (asCallsOnly T toCallsOnly a h) ! b = h ! b)
       \<and> snd (asCallsOnly T toCallsOnly a h) ! a = snd (asLatest T (h ! a))
       \<and> registry (snd (asLatest T (h ! a))) = registry (h ! a)
       \<and> magicNumber (snd (asLatest T (h ! a))) = magicNumber (h ! a)
       \<and> metadata (snd (asLatest T (h ! a))) = metadata (h ! a)
       \<and> converted (h ! a) \<subseteq>\<^sub>m converted (snd (asLatest T (h ! a)))
       \<and> Latest \<in> dom (converted (snd (asLatest T (h ! a))))
       \<and> dom (converted (snd (asLatest T (h ! a))))
           \<subseteq> dom (converted (h ! a)) \<union> {v. version (h ! a) < rank v}
       \<and> fst (asCallsOnly T toCallsOnly a (snd (asCallsOnly T toCallsOnly a h)))
           = Inr (Suc (length h))"
proof -
  let ?obj = "h ! a"
  let ?h' = "snd (asCallsOnly T toCallsOnly a h)"
  from assms(2) have ok: "cache_ok T ?obj" by (rule reachable_cache_ok)
  then have le: "version ?obj \<le> 14" by (simp add: cache_ok_def)
  note f = asLatest_facts [OF ok]
  let ?latest = "toLatest T (registry ?obj)
                   (migrate T (registry ?obj) (version ?obj) (inner (metadata ?obj)) V14)
                   (version ?obj)"
  obtain r s where rs: "asLatest T ?obj = (r, s)"
    by (cases "asLatest T ?obj")
  have r: "r = Inr ?latest"
    using f(1) rs migrate_Latest [OF le, of T] by simp
  have s: "snd (asLatest T ?obj) = s"
    using rs by simp
  have out: "asCallsOnly T toCallsOnly a h =
      (Inr (length h),
       h[a := s] @
         [new_MetadataVersioned (registry ?obj) (magicNumber ?obj)
            (createType_MetadataAll (toCallsOnly (registry ?obj) ?latest) LATEST_VERSION)])"
    using assms(1) rs r by (simp add: asCallsOnly_def Let_def)
  have len: "length ?h' = Suc (length h)" and at_a: "?h' ! a = s"
    using out assms(1) by (simp_all add: nth_append)
  have new: "?h' ! length h =
      \<lparr>registry = registry ?obj, magicNumber = magicNumber ?obj,
       metadata = \<lparr>index = 14, inner = toCallsOnly (registry ?obj) ?latest\<rparr>,
       converted = Map.empty, calls = []\<rparr>"
    using out
    by (simp add: nth_append new_MetadataVersioned_def createType_MetadataAll_def
          LATEST_VERSION_def)
  have others: "\<forall>b < length h. b \<noteq> a \<longrightarrow> ?h' ! b = h ! b"
    using out by (simp add: nth_append)
  have frame: "registry s = registry ?obj" "magicNumber s = magicNumber ?obj"
      "metadata s = metadata ?obj" "converted ?obj \<subseteq>\<^sub>m converted s"
      "dom (converted s) \<subseteq> dom (converted ?obj) \<union> {v. version ?obj < rank v}"
    using f(4) s by (auto simp: grown_def)
  have latest: "Latest \<in> dom (converted s)"
    using f(2) s by auto
  have a': "a < length ?h'" using len assms(1) by simp
  have "reachable T s"
    using reachable.read_latest [OF assms(2)] s by simp
  then have ok': "cache_ok T s" by (rule reachable_cache_ok)
  obtain r2 s2 where rs2: "asLatest T s = (r2, s2)"
    by (cases "asLatest T s")
  with asLatest_facts(1) [OF ok'] obtain l2 where "r2 = Inr l2"
    by simp
  with rs2 a' at_a have again: "fst (asCallsOnly T toCallsOnly a ?h') = Inr (length ?h')"
    by (simp add: asCallsOnly_def Let_def)
  from out len new others at_a frame latest again s show ?thesis by simp
qed


theorem asCallsOnly_new_instance_witness:
  "0 < length [fresh_at 13, fresh_at 9] \<and> reachable traceT ([fresh_at 13, fresh_at 9] ! 0) \<and>
   fst (asCallsOnly traceT (\<lambda>r m. m) 0 [fresh_at 13, fresh_at 9]) = Inr 2 \<and>
   snd (asCallsOnly traceT (\<lambda>r m. m) 0 [fresh_at 13, fresh_at 9]) ! 2 =
     new_MetadataVersioned () 0x6174656D \<lparr>index = 14, inner = [14, 15]\<rparr> \<and>
   snd (asCallsOnly traceT (\<lambda>r m. m) 0 [fresh_at 13, fresh_at 9]) ! 1 = fresh_at 9 \<and>
   fst (asCallsOnly traceT (\<lambda>r m. m) 0
          (snd (asCallsOnly traceT (\<lambda>r m. m) 0 [fresh_at 13, fresh_at 9]))) = Inr 3"
proof -
  let ?h = "[fresh_at 13, fresh_at 9]"
  have r: "reachable traceT (?h ! 0)"
    using fresh_at_reachable [of 13 traceT] by simp
  have l: "0 < length ?h"
    by simp
  have len: "length ?h = 2" "Suc 2 = 3"
    by simp_all
  have m: "toLatest traceT (registry (?h ! 0))
             (migrate traceT (registry (?h ! 0)) (version (?h ! 0)) (inner (metadata (?h ! 0))) V14)
             (version (?h ! 0)) = [14, 15]"
    by (simp add: migrate.simps traceT_def version_fresh_at fresh_at_fields)
  note t = asCallsOnly_new_instance [OF l r, of "\<lambda>r m. m", unfolded len m]
  have "snd (asCallsOnly traceT (\<lambda>r m. m) 0 ?h) ! 1 = fresh_at 9"
    using t by simp
  moreover have "snd (asCallsOnly traceT (\<lambda>r m. m) 0 ?h) ! 2 =
      new_MetadataVersioned () 0x6174656D \<lparr>index = 14, inner = [14, 15]\<rparr>"
    using t by (simp add: new_MetadataVersioned_def fresh_at_fields)
  ultimately show ?thesis
    using t l r by simp
qed

section \<open>Properties of the storage keys\<close>

subsection \<open>The loop of decodeHashers\<close>

lemma decodeHasher_opaque:
  assumes "\<not> snd (HASHER_MAP hasher)"
  shows "decodeHasher reg v (off, res) (hasher, ty) =
           Inr (off + fst (HASHER_MAP hasher),
                res @ [Raw (take (fst (HASHER_MAP hasher)) (drop off v))])"
  using assms
  by (cases "HASHER_MAP hasher") (simp add: decodeHasher_def createType_def subarray_def drop_take)

lemma decodeHasher_decodable:
  assumes "snd (HASHER_MAP hasher)"
  shows "decodeHasher reg v (off, res) (hasher, ty) =
           (case createLookupType reg ty of
              Inl e \<Rightarrow> Inl e
            | Inr n \<Rightarrow>
                (case createType reg n (drop (off + fst (HASHER_MAP hasher)) v) of
                   Inl e \<Rightarrow> Inl e
                 | Inr d \<Rightarrow>
                     Inr (off + fst (HASHER_MAP hasher) + encodedLength d, res @ [d])))"
  using assms
  by (cases "HASHER_MAP hasher") (simp add: decodeHasher_def subarray_def split: sum.splits)

lemma reduce_decodeFrom:
  "reduce (decodeHasher reg v) hs (off, res) =
     (case decodeFrom reg v off hs of
        Inl e \<Rightarrow> Inl e
      | Inr ds \<Rightarrow> Inr (off + consumed hs ds, res @ ds))"
proof (induction hs arbitrary: off res)
  case Nil
  then show ?case by simp
next
  case (Cons ht hs)
  obtain hasher ty where ht: "ht = (hasher, ty)" by (cases ht)
  show ?case
  proof (cases "snd (HASHER_MAP hasher)")
    case True
    then show ?thesis
      unfolding ht
      by (simp add: decodeHasher_decodable Cons.IH add.assoc split: sum.splits)
  next
    case False
    then show ?thesis
      unfolding ht
      by (simp add: decodeHasher_opaque Cons.IH add.assoc split: sum.splits)
  qed
qed

lemma decodeHashers_decodeFrom: "decodeHashers reg v hs = decodeFrom reg v 32 hs"
  by (simp add: decodeHashers_def reduce_decodeFrom split: sum.splits)

lemma drop_beyond:
  assumes "drop 32 v = drop 32 v'" and "32 \<le> k"
  shows "drop k v = drop k (v' :: 'a list)"
proof -
  have "drop k v = drop (k - 32) (drop 32 v)" using assms(2) by simp
  also have "\<dots> = drop (k - 32) (drop 32 v')" using assms(1) by simp
  also have "\<dots> = drop k v'" using assms(2) by simp
  finally show ?thesis .
qed

lemma decodeFrom_prefix:
  assumes "drop 32 v = drop 32 v'" and "32 \<le> off"
  shows "decodeFrom reg v off hs = decodeFrom reg v' off hs"
  using assms(2)
proof (induction hs arbitrary: off)
  case Nil
  then show ?case by simp
next
  case (Cons ht hs)
  obtain hasher ty where ht: "ht = (hasher, ty)" by (cases ht)
  have d: "\<And>k. 32 \<le> k \<Longrightarrow> drop k v = drop k v'"
    using drop_beyond [OF assms(1)] by blast
  from Cons.prems show ?case
    unfolding ht by (simp add: d Cons.IH split: sum.splits)
qed

lemma decodeFrom_opaque:
  assumes "decodeFrom reg v off hs = Inr args" and "off + consumed hs args \<le> length v"
  shows "list_all2 fixed_raw hs args"
  using assms
proof (induction hs arbitrary: off args)
  case Nil
  then show ?case by simp
next
  case (Cons ht hs)
  obtain hasher ty where ht: "ht = (hasher, ty)" by (cases ht)
  from Cons.prems show ?case
    unfolding ht
    by (auto simp: fixed_raw_def split: if_splits sum.splits dest!: Cons.IH)
qed

text \<open>
  Claim C2 as stated makes the argument of a non-decodable hasher a raw value of the fixed
  hash length for every raw key. A key of 40 bytes ends 8 bytes into the 16 bytes of a
  \<^verbatim>\<open>Twox128\<close> hash; the argument is the raw value of those 8 bytes.
\<close>

theorem decodeHashers_truncated_key:
  "decodeHashers demoRegistry (replicate 40 0) [(Twox128, Some 4)] = Inr [Raw (replicate 8 0)] \<and>
   \<not> fixed_raw (Twox128, Some 4) (Raw (replicate 8 0) :: nat Codec)"
  by (simp add: decodeHashers_def decodeHasher_def createType_def subarray_def fixed_raw_def)

text \<open>
  Claim C2, as amended. For every registry, key \<open>v\<close> and list of hashers, \<^verbatim>\<open>decodeHashers\<close>
  is the recursion \<open>decodeFrom\<close> of the specification started at offset 32: in declared
  order, a non-decodable hasher moves the offset by its hash length and gives the raw value
  of the key bytes from the offset up to the hash length, a decodable one decodes the
  declared type after the hash and moves the offset by the hash length plus the encoded
  length of the value. The first 32 bytes are never read: two keys that agree from byte 32
  on decode alike. When the key holds all the bytes the run consumed, every raw value has
  exactly its hasher's length.
\<close>

theorem decodeHashers_threads_offset:
  "decodeHashers reg v hs = decodeFrom reg v 32 hs \<and>
   (drop 32 v = drop 32 v' \<longrightarrow> decodeHashers reg v hs = decodeHashers reg v' hs) \<and>
   (decodeHashers reg v hs = Inr args \<and> 32 + consumed hs args \<le> length v \<longrightarrow>
      list_all2 fixed_raw hs args)"
  using decodeFrom_prefix [of v v' 32 reg hs] decodeFrom_opaque [of reg v 32 hs args]
  by (simp add: decodeHashers_decodeFrom)

theorem decodeHashers_threads_offset_witness:
  "drop 32 (replicate 32 0 @ replicate 8 170 @ [42, 0, 0, 0]) =
     drop 32 (replicate 32 255 @ replicate 8 170 @ [42, 0, 0, 0 :: 8 word]) \<and>
   decodeHashers demoRegistry (replicate 32 0 @ replicate 8 170 @ [42, 0, 0, 0])
     [(Twox64Concat, Some 4)] = Inr [Decoded 42 4] \<and>
   decodeHashers demoRegistry (replicate 32 255 @ replicate 8 170 @ [42, 0, 0, 0])
     [(Twox64Concat, Some 4)] = Inr [Decoded 42 4] \<and>
   decodeHashers demoRegistry (replicate 48 7) [(Twox128, Some 4)] = Inr [Raw (replicate 16 7)] \<and>
   32 + consumed [(Twox128, Some 4)] [Raw (replicate 16 7) :: nat Codec] \<le> length (replicate 48 (7 :: 8 word)) \<and>
   list_all2 fixed_raw [(Twox128, Some 4)] [Raw (replicate 16 7) :: nat Codec]"
proof -
  let ?v = "replicate 32 0 @ replicate 8 170 @ [42, 0, 0, 0 :: 8 word]"
  let ?v' = "replicate 32 255 @ replicate 8 170 @ [42, 0, 0, 0 :: 8 word]"
  have d: "drop 32 ?v = drop 32 ?v'"
    by simp
  have a: "decodeHashers demoRegistry ?v [(Twox64Concat, Some 4)] = Inr [Decoded 42 4]"
    by (simp add: decodeHashers_decodeFrom demoRegistry_def createType_def le_nat_def)
  have b: "decodeHashers demoRegistry (replicate 48 7) [(Twox128, Some 4)] =
             Inr [Raw (replicate 16 7)]"
    by (simp add: decodeHashers_decodeFrom)
  have c: "32 + consumed [(Twox128, Some 4)] [Raw (replicate 16 7) :: nat Codec]
             \<le> length (replicate 48 (7 :: 8 word))"
    by simp
  have a': "decodeHashers demoRegistry ?v' [(Twox64Concat, Some 4)] = Inr [Decoded 42 4]"
    using decodeHashers_threads_offset
            [of demoRegistry ?v "[(Twox64Concat, Some 4)]" ?v' "[Decoded 42 4]"] d a
    by metis
  have f: "list_all2 fixed_raw [(Twox128, Some 4)] [Raw (replicate 16 7) :: nat Codec]"
    using decodeHashers_threads_offset
            [of demoRegistry "replicate 48 7" "[(Twox128, Some 4)]" "replicate 48 7"
               "[Raw (replicate 16 7)]"] b c
    by blast
  from d a a' b c f show ?thesis
    by blast
qed

subsection \<open>The hasher table\<close>

text \<open>
  Claim C6. The table maps Identity to (0, yes), Twox64Concat to (8, yes), Blake2_128Concat
  to (16, yes), Twox128 and Blake2_128 to (16, no), Twox256 and Blake2_256 to (32, no);
  these seven are all the hasher kinds, and a kind is decodable exactly when its name ends
  in "Concat" or it is Identity.
\<close>

theorem HASHER_MAP_table:
  "HASHER_MAP Identity = (0, True) \<and>
   HASHER_MAP Twox64Concat = (8, True) \<and>
   HASHER_MAP Blake2_128Concat = (16, True) \<and>
   HASHER_MAP Twox128 = (16, False) \<and>
   HASHER_MAP Blake2_128 = (16, False) \<and>
   HASHER_MAP Twox256 = (32, False) \<and>
   HASHER_MAP Blake2_256 = (32, False) \<and>
   (\<forall>h. h \<in> {Identity, Twox64Concat, Blake2_128Concat, Twox128, Blake2_128, Twox256,
              Blake2_256}) \<and>
   (\<forall>h. snd (HASHER_MAP h) = (suffix ''Concat'' (hasherName h) \<or> h = Identity))"
proof -
  have all: "\<And>h. h \<in> {Identity, Twox64Concat, Blake2_128Concat, Twox128, Blake2_128, Twox256,
              Blake2_256}"
    by (case_tac h) simp_all
  have dec: "\<And>h. snd (HASHER_MAP h) = (suffix ''Concat'' (hasherName h) \<or> h = Identity)"
    by (case_tac h) (simp_all add: suffix_def)
  from all dec show ?thesis by simp
qed

subsection \<open>Descriptors\<close>

lemma pairs_zip:
  "map (\<lambda>i. (hs ! i, at ts i)) [0..<length hs] =
     zip hs (map Some ts @ replicate (length hs - length ts) None)"
  by (rule nth_equalityI) (auto simp: at_def nth_append)

lemma setMeta_absent:
  "setMeta reg this None sect meth =
     (Inr (), this\<lparr>sk_meta := None, sk_method := or_else meth (sk_method this),
                   sk_section := or_else sect (sk_section this), sk_args := Some []\<rparr>)"
  by (simp add: setMeta_def decodeArgsFromMeta_def Let_def)

lemma setMeta_plain:
  assumes "getSiName reg t = Inr n"
  shows "setMeta reg this (Some \<lparr>type = Plain t\<rparr>) sect meth =
     (Inr (), this\<lparr>sk_meta := Some \<lparr>type = Plain t\<rparr>,
                   sk_method := or_else meth (sk_method this),
                   sk_section := or_else sect (sk_section this),
                   sk_outputType := n, sk_args := Some []\<rparr>)"
  using assms
  by (simp add: setMeta_def decodeArgsFromMeta_def Let_def unwrapStorageType_def
        unwrapStorageSi_def)

text \<open>
  Claim C7. Without a descriptor, and with the descriptor of a plain entry,
  \<^verbatim>\<open>decodeArgsFromMeta\<close> answers the empty list, and \<^verbatim>\<open>setMeta\<close> stores it as the key's
  arguments. For a map entry with more than one hasher whose key type is the tuple \<open>ts\<close>,
  the hashers are decoded paired with the tuple's elements in declared order (a hasher
  beyond the tuple's end is paired with \<^verbatim>\<open>undefined\<close>); with as many elements as hashers
  the pairs are \<open>zip hs ts\<close>.
\<close>

theorem decodeArgsFromMeta_shapes:
  "decodeArgsFromMeta reg v None = Inr [] \<and>
   decodeArgsFromMeta reg v (Some \<lparr>type = Plain t\<rparr>) = Inr [] \<and>
   sk_args (snd (setMeta reg this None sect meth)) = Some [] \<and>
   (getSiName reg t = Inr n \<longrightarrow>
      sk_args (snd (setMeta reg this (Some \<lparr>type = Plain t\<rparr>) sect meth)) = Some []) \<and>
   (1 < length hs \<and> getSiTypeDefAsTuple reg k = Inr ts \<longrightarrow>
      decodeArgsFromMeta reg v (Some \<lparr>type = Map hs k vt\<rparr>) =
        decodeHashers reg v (zip hs (map Some ts @ replicate (length hs - length ts) None)) \<and>
      (length ts = length hs \<longrightarrow>
         decodeArgsFromMeta reg v (Some \<lparr>type = Map hs k vt\<rparr>) =
           decodeHashers reg v (zip hs (map Some ts))))"
proof -
  have tuple: "decodeArgsFromMeta reg v (Some \<lparr>type = Map hs k vt\<rparr>) =
      decodeHashers reg v (zip hs (map Some ts @ replicate (length hs - length ts) None))"
    if "1 < length hs" "getSiTypeDefAsTuple reg k = Inr ts"
    using that by (simp add: decodeArgsFromMeta_def pairs_zip)
  show ?thesis
    using tuple setMeta_plain [of reg t n this sect meth]
    by (auto simp: setMeta_absent decodeArgsFromMeta_def)
qed

theorem decodeArgsFromMeta_shapes_witness:
  "getSiName demoRegistry 4 = Inr ''u32'' \<and>
   sk_args (snd (setMeta demoRegistry
      \<lparr>sk_bytes = [1, 2, 3], sk_args = None, sk_meta = None, sk_outputType = ''Raw'',
       sk_method = None, sk_section = None\<rparr> (Some \<lparr>type = Plain 4\<rparr>) None None)) = Some [] \<and>
   1 < length [Twox64Concat, Twox128] \<and> getSiTypeDefAsTuple demoRegistry 7 = Inr [4, 4] \<and>
   length [4, 4 :: nat] = length [Twox64Concat, Twox128] \<and>
   decodeArgsFromMeta demoRegistry (replicate 32 0 @ replicate 8 170 @ [42, 0, 0, 0] @ replicate 16 9)
      (Some \<lparr>type = Map [Twox64Concat, Twox128] 7 4\<rparr>) =
     decodeHashers demoRegistry (replicate 32 0 @ replicate 8 170 @ [42, 0, 0, 0] @ replicate 16 9)
       [(Twox64Concat, Some 4), (Twox128, Some 4)] \<and>
   decodeArgsFromMeta demoRegistry (replicate 32 0 @ replicate 8 170 @ [42, 0, 0, 0] @ replicate 16 9)
      (Some \<lparr>type = Map [Twox64Concat, Twox128] 7 4\<rparr>) =
     Inr [Decoded 42 4, Raw (replicate 16 9)]"
proof -
  let ?v = "replicate 32 0 @ replicate 8 170 @ [42, 0, 0, 0] @ replicate 16 (9 :: 8 word)"
  let ?k0 = "\<lparr>sk_bytes = [1, 2, 3], sk_args = None, sk_meta = None, sk_outputType = ''Raw'',
       sk_method = None, sk_section = None\<rparr> :: nat StorageKey"
  have n: "getSiName demoRegistry 4 = Inr ''u32''"
    by (simp add: demoRegistry_def)
  have t: "getSiTypeDefAsTuple demoRegistry 7 = Inr [4, 4]"
    by (simp add: demoRegistry_def)
  have l: "1 < length [Twox64Concat, Twox128]" "length [4, 4 :: nat] = length [Twox64Concat, Twox128]"
    by simp_all
  have z: "zip [Twox64Concat, Twox128] (map Some [4, 4 :: nat]) =
             [(Twox64Concat, Some 4), (Twox128, Some 4)]"
    by simp
  have d: "decodeHashers demoRegistry ?v [(Twox64Concat, Some 4), (Twox128, Some 4)] =
             Inr [Decoded 42 4, Raw (replicate 16 9)]"
    by (simp add: decodeHashers_decodeFrom demoRegistry_def createType_def le_nat_def)
  note inst = decodeArgsFromMeta_shapes [of demoRegistry ?v 4 "?k0" None None "''u32''"
      "[Twox64Concat, Twox128]" 7 "[4, 4]" 4]
  from inst n have p: "sk_args (snd (setMeta demoRegistry ?k0 (Some \<lparr>type = Plain 4\<rparr>) None None)) = Some []"
    by blast
  from inst l t have m: "decodeArgsFromMeta demoRegistry ?v (Some \<lparr>type = Map [Twox64Concat, Twox128] 7 4\<rparr>) =
      decodeHashers demoRegistry ?v (zip [Twox64Concat, Twox128] (map Some [4, 4]))"
    by blast
  from n p l t m d show ?thesis
    unfolding z by simp
qed

subsection \<open>Keys\<close>

text \<open>
  Claim C9. \<^verbatim>\<open>k1.is(k2)\<close> holds exactly when section and method of the two keys are equal;
  bytes, arguments, descriptor and output type of either key do not matter.
\<close>

theorem is_key_section_method_only:
  "is_key k1 k2 = (sk_section k2 = sk_section k1 \<and> sk_method k2 = sk_method k1) \<and>
   is_key k1 (k2\<lparr>sk_bytes := b, sk_args := a, sk_meta := m, sk_outputType := t\<rparr>) = is_key k1 k2 \<and>
   is_key (k1\<lparr>sk_bytes := b, sk_args := a, sk_meta := m, sk_outputType := t\<rparr>) k2 = is_key k1 k2"
  by (simp add: is_key_def)

text \<open>
  When decoding the arguments fails, \<^verbatim>\<open>setMeta\<close> leaves \<^verbatim>\<open>_args\<close> as it was.
\<close>

lemma setMeta_failed_decode:
  assumes "decodeArgsFromMeta reg (sk_bytes this) meta = Inl e"
  shows "sk_args (snd (setMeta reg this meta sect meth)) = sk_args this"
  using assms
  by (auto simp: setMeta_def Let_def toU8a_bare_def split: option.splits sum.splits)

text \<open>
  Claim C5. Two keys whose arguments cannot be decoded: the key of a map entry with one
  \<^verbatim>\<open>Twox64Concat\<close> hasher over a \<^verbatim>\<open>u32\<close> that ends two bytes into the \<^verbatim>\<open>u32\<close>, and the key of
  a map entry with two hashers whose key type is \<^verbatim>\<open>u32\<close>, not a tuple. For both,
  construction succeeds and the key keeps its bytes, method and section, but its argument
  list is not the empty list: \<^verbatim>\<open>_args\<close> was never assigned. \<^verbatim>\<open>setMeta\<close> with the second
  descriptor on a key that had arguments leaves the old ones in place.
\<close>

theorem setMeta_failed_decode_keeps_args:
  "new_StorageKey demoRegistry demoBytes
      (FromEntry (demoEntry (Map [Twox64Concat] 4 4) (replicate 32 0 @ replicate 8 170 @ [42, 0])))
      None None =
     Inr \<lparr>sk_bytes = replicate 32 0 @ replicate 8 170 @ [42, 0], sk_args = None,
          sk_meta = Some \<lparr>type = Map [Twox64Concat] 4 4\<rparr>, sk_outputType = ''u32'',
          sk_method = Some ''account'', sk_section = Some ''system''\<rparr> \<and>
   new_StorageKey demoRegistry demoBytes
      (FromEntry (demoEntry (Map [Twox64Concat, Twox128] 4 4) (replicate 60 1))) None None =
     Inr \<lparr>sk_bytes = replicate 60 1, sk_args = None,
          sk_meta = Some \<lparr>type = Map [Twox64Concat, Twox128] 4 4\<rparr>, sk_outputType = ''u32'',
          sk_method = Some ''account'', sk_section = Some ''system''\<rparr> \<and>
   setMeta demoRegistry
      \<lparr>sk_bytes = replicate 60 1, sk_args = Some [Decoded 7 4],
       sk_meta = None, sk_outputType = ''Raw'', sk_method = Some ''account'',
       sk_section = Some ''system''\<rparr>
      (Some \<lparr>type = Map [Twox64Concat, Twox128] 4 4\<rparr>) None None =
     (Inr (),
      \<lparr>sk_bytes = replicate 60 1, sk_args = Some [Decoded 7 4],
       sk_meta = Some \<lparr>type = Map [Twox64Concat, Twox128] 4 4\<rparr>, sk_outputType = ''u32'',
       sk_method = Some ''account'', sk_section = Some ''system''\<rparr>)"
  by (simp add: new_StorageKey_def decodeStorageKey_def demoEntry_def demoBytes_def getType_def
        getMeta_def setMeta_def unwrapStorageType_def unwrapStorageSi_def demoRegistry_def
        decodeArgsFromMeta_def decodeHashers_decodeFrom createType_def or_else_def
        toU8a_bare_def at_def Let_def)

end
